theory Spec2Isabelle
  imports Main "HOL-Library.Sublist" "HOL-Library.Product_Lexorder" "HOL-Library.Multiset"
begin

section \<open>Library values the program relies on\<close>

subsection \<open>Naive datetimes\<close>

text \<open>
  A naive \<^verbatim>\<open>datetime\<close> is the tuple (year, month, day, hour, minute, second,
  microsecond). Python compares two of them field by field in this order, which is the
  lexicographic order of the tuple. \<^verbatim>\<open>datetime.max\<close> is the last representable
  instant, 9999-12-31 23:59:59.999999.
\<close>

type_synonym datetime = "int \<times> int \<times> int \<times> int \<times> int \<times> int \<times> int"

definition datetime_max :: datetime where
  "datetime_max = (9999, 12, 31, 23, 59, 59, 999999)"

datatype error = ValueError | UnpicklingError

subsection \<open>Text: \<^verbatim>\<open>str\<close>, \<^verbatim>\<open>str.lower\<close> and the \<^verbatim>\<open>in\<close> operator\<close>

text \<open>
  A task name and a query term are \<^verbatim>\<open>str\<close> values in any script: sequences of
  Unicode code points. \<open>ascii\<close> reads an ASCII literal as such a sequence.

  \<^verbatim>\<open>str.lower\<close> belongs to the library and follows the Unicode tables and their
  context rules, so it is not defined here: the functions that call it take it as their
  first argument \<open>lower\<close>, and what is proved of them holds whatever it computes.
\<close>

type_synonym str = "nat list"

definition ascii :: "string \<Rightarrow> str" where
  "ascii s = map of_char s"

text \<open>\<^verbatim>\<open>q in s\<close> on strings: \<open>q\<close> occurs in \<open>s\<close> as a contiguous block.\<close>

fun str_in :: "str \<Rightarrow> str \<Rightarrow> bool" where
  "str_in q [] = (q = [])"
| "str_in q (c # cs) = (prefix q (c # cs) \<or> str_in q cs)"

subsection \<open>\<^verbatim>\<open>datetime.strptime(s, '%m/%d/%Y')\<close>\<close>

text \<open>
  The library turns the format into the regular expression
  \<^verbatim>\<open>(1[0-2]|0[1-9]|[1-9])/(3[0-1]|[1-2]\d|0[1-9]|[1-9]| [1-9])/(\d\d\d\d)\<close>,
  matches it at the start of the text, rejects text left over after the match, and
  then builds the date, rejecting year 0 and a day the month does not have. Every
  rejection is a \<^verbatim>\<open>ValueError\<close>. Each group below lists the ways its alternatives
  match, in the order the expression tries them, with the text left after each.
\<close>

definition between :: "char \<Rightarrow> char \<Rightarrow> char \<Rightarrow> bool" where
  "between lo hi c = ((of_char lo :: nat) \<le> of_char c \<and> (of_char c :: nat) \<le> of_char hi)"

definition dv :: "char \<Rightarrow> int" where
  "dv c = int (of_char c) - 48"

definition month_alts :: "string \<Rightarrow> (int \<times> string) list" where
  "month_alts s =
     (case s of
        a # b # r \<Rightarrow>
          (if a = CHR ''1'' \<and> between CHR ''0'' CHR ''2'' b then [(10 + dv b, r)] else []) @
          (if a = CHR ''0'' \<and> between CHR ''1'' CHR ''9'' b then [(dv b, r)] else [])
      | _ \<Rightarrow> []) @
     (case s of
        a # r \<Rightarrow> if between CHR ''1'' CHR ''9'' a then [(dv a, r)] else []
      | [] \<Rightarrow> [])"

definition day_alts :: "string \<Rightarrow> (int \<times> string) list" where
  "day_alts s =
     (case s of
        a # b # r \<Rightarrow>
          (if a = CHR ''3'' \<and> between CHR ''0'' CHR ''1'' b then [(30 + dv b, r)] else []) @
          (if between CHR ''1'' CHR ''2'' a \<and> between CHR ''0'' CHR ''9'' b
           then [(10 * dv a + dv b, r)] else []) @
          (if a = CHR ''0'' \<and> between CHR ''1'' CHR ''9'' b then [(dv b, r)] else [])
      | _ \<Rightarrow> []) @
     (case s of
        a # r \<Rightarrow> if between CHR ''1'' CHR ''9'' a then [(dv a, r)] else []
      | [] \<Rightarrow> []) @
     (case s of
        a # b # r \<Rightarrow> if a = CHR '' '' \<and> between CHR ''1'' CHR ''9'' b then [(dv b, r)] else []
      | _ \<Rightarrow> [])"

definition year_alts :: "string \<Rightarrow> (int \<times> string) list" where
  "year_alts s =
     (case s of
        a # b # c # d # r \<Rightarrow>
          if list_all (between CHR ''0'' CHR ''9'') [a, b, c, d]
          then [(1000 * dv a + 100 * dv b + 10 * dv c + dv d, r)] else []
      | _ \<Rightarrow> [])"

definition slash :: "string \<Rightarrow> string list" where
  "slash s = (case s of c # r \<Rightarrow> if c = CHR ''/'' then [r] else [] | [] \<Rightarrow> [])"

definition regex_matches :: "string \<Rightarrow> (int \<times> int \<times> int \<times> string) list" where
  "regex_matches s =
     [(m, d, y, r). (m, r1) \<leftarrow> month_alts s, r2 \<leftarrow> slash r1, (d, r3) \<leftarrow> day_alts r2,
                    r4 \<leftarrow> slash r3, (y, r) \<leftarrow> year_alts r4]"

definition is_leap :: "int \<Rightarrow> bool" where
  "is_leap y = (y mod 4 = 0 \<and> (y mod 100 \<noteq> 0 \<or> y mod 400 = 0))"

definition days_in_month :: "int \<Rightarrow> int \<Rightarrow> int" where
  "days_in_month y m =
     (if m = 2 then (if is_leap y then 29 else 28)
      else if m = 4 \<or> m = 6 \<or> m = 9 \<or> m = 11 then 30 else 31)"

definition strptime :: "string \<Rightarrow> error + datetime" where
  "strptime s =
     (case regex_matches s of
        [] \<Rightarrow> Inl ValueError
      | (m, d, y, r) # _ \<Rightarrow>
          if r \<noteq> [] then Inl ValueError
          else if y < 1 \<or> days_in_month y m < d then Inl ValueError
          else Inr (y, m, d, 0, 0, 0, 0))"

subsection \<open>\<^verbatim>\<open>pickle\<close> and the file system\<close>

text \<open>
  The serializer is a parameter: \<open>dump\<close> turns a task list into the content of a file,
  \<open>load\<close> reads such a content back or raises. The file system maps a path to the
  content of the file there, \<open>None\<close> when there is no file.
\<close>

section \<open>class Task\<close>

record task =
  task_id :: int
  name :: str
  priority :: int
  created :: datetime
  due_date :: "datetime option"
  completed :: "datetime option"

record 'b pickler =
  dump :: "task list \<Rightarrow> 'b"
  load :: "'b \<Rightarrow> error + task list"

type_synonym 'b fs = "string \<Rightarrow> 'b option"

text \<open>
  \<^verbatim>\<open>Task.__init__\<close>. The clock reading \<open>now\<close> is an argument. A due date that is
  \<^verbatim>\<open>None\<close> or the empty string is falsy and gives no due date; any other text goes
  through \<open>strptime\<close>, whose error leaves the constructor.
\<close>

definition Task_init :: "datetime \<Rightarrow> int \<Rightarrow> str \<Rightarrow> int \<Rightarrow> string option \<Rightarrow> error + task" where
  "Task_init now tid nm prio due =
     (case (case due of
              None \<Rightarrow> Inr None
            | Some s \<Rightarrow> if s = [] then Inr None else map_sum id Some (strptime s)) of
        Inl e \<Rightarrow> Inl e
      | Inr dd \<Rightarrow>
          Inr \<lparr>task_id = tid, name = nm, priority = prio, created = now,
               due_date = dd, completed = None\<rparr>)"

definition task_mark_complete :: "datetime \<Rightarrow> task \<Rightarrow> task" where
  "task_mark_complete now t = t\<lparr>completed := Some now\<rparr>"

definition is_completed :: "task \<Rightarrow> bool" where
  "is_completed t = (completed t \<noteq> None)"

section \<open>class Tasks\<close>

record Tasks =
  file_path :: string
  tasks :: "task list"

definition load_tasks :: "'b pickler \<Rightarrow> string \<Rightarrow> 'b fs \<Rightarrow> error + task list" where
  "load_tasks pk path files =
     (case files path of Some b \<Rightarrow> load pk b | None \<Rightarrow> Inr [])"

definition Tasks_init :: "'b pickler \<Rightarrow> string \<Rightarrow> 'b fs \<Rightarrow> error + Tasks" where
  "Tasks_init pk path files =
     (case load_tasks pk path files of
        Inl e \<Rightarrow> Inl e
      | Inr ts \<Rightarrow> Inr \<lparr>file_path = path, tasks = ts\<rparr>)"

definition save_tasks :: "'b pickler \<Rightarrow> Tasks \<Rightarrow> 'b fs \<Rightarrow> 'b fs" where
  "save_tasks pk self files = files(file_path self \<mapsto> dump pk (tasks self))"

definition add_task ::
  "'b pickler \<Rightarrow> datetime \<Rightarrow> str \<Rightarrow> int \<Rightarrow> string option \<Rightarrow> Tasks \<times> 'b fs
     \<Rightarrow> (error + int) \<times> Tasks \<times> 'b fs" where
  "add_task pk now nm prio due w =
     (case w of (self, files) \<Rightarrow>
        (let tid = int (length (tasks self)) + 1 in
         case Task_init now tid nm prio due of
           Inl e \<Rightarrow> (Inl e, self, files)
         | Inr t \<Rightarrow>
             (let self' = self\<lparr>tasks := tasks self @ [t]\<rparr>
              in (Inr tid, self', save_tasks pk self' files))))"

definition delete_task :: "'b pickler \<Rightarrow> int \<Rightarrow> Tasks \<times> 'b fs \<Rightarrow> Tasks \<times> 'b fs" where
  "delete_task pk tid w =
     (case w of (self, files) \<Rightarrow>
        (let self' = self\<lparr>tasks := filter (\<lambda>t. task_id t \<noteq> tid) (tasks self)\<rparr>
         in (self', save_tasks pk self' files)))"

text \<open>
  The loop of \<^verbatim>\<open>Tasks.mark_complete\<close>: the first task with the id is marked and the
  loop returns; \<open>None\<close> when the loop runs to its end without a match.
\<close>

fun mark_first :: "datetime \<Rightarrow> int \<Rightarrow> task list \<Rightarrow> task list option" where
  "mark_first now tid [] = None"
| "mark_first now tid (t # ts) =
     (if task_id t = tid then Some (task_mark_complete now t # ts)
      else map_option ((#) t) (mark_first now tid ts))"

definition mark_complete ::
  "'b pickler \<Rightarrow> datetime \<Rightarrow> int \<Rightarrow> Tasks \<times> 'b fs \<Rightarrow> bool \<times> Tasks \<times> 'b fs" where
  "mark_complete pk now tid w =
     (case w of (self, files) \<Rightarrow>
        (case mark_first now tid (tasks self) of
           None \<Rightarrow> (False, self, files)
         | Some ts \<Rightarrow>
             (let self' = self\<lparr>tasks := ts\<rparr>
              in (True, self', save_tasks pk self' files))))"

text \<open>
  The sort key \<^verbatim>\<open>(t.due_date or datetime.max, -t.priority)\<close>. A datetime is always
  truthy, so only a missing due date is replaced. Pairs compare lexicographically, and
  \<^verbatim>\<open>list.sort\<close> is a stable sort by that key, as \<open>sort_key\<close> is.
\<close>

definition sort_key_of :: "task \<Rightarrow> datetime \<times> int" where
  "sort_key_of t = (case due_date t of None \<Rightarrow> datetime_max | Some d \<Rightarrow> d, - priority t)"

text \<open>
  \<^verbatim>\<open>Tasks.list_tasks\<close>. A query that is \<^verbatim>\<open>None\<close> or the empty list is falsy and
  skips the name filter. The filter lowers the term and the name with \<^verbatim>\<open>str.lower\<close>,
  the argument \<open>lower\<close>.
\<close>

definition list_tasks :: "(str \<Rightarrow> str) \<Rightarrow> str list option \<Rightarrow> Tasks \<Rightarrow> task list" where
  "list_tasks lower query self =
     (let tasks_to_list = filter (\<lambda>t. \<not> is_completed t) (tasks self);
          tasks_to_list =
            (case query of
               Some (q # qs) \<Rightarrow>
                 filter (\<lambda>t. list_ex (\<lambda>q. str_in (lower q) (lower (name t))) (q # qs))
                   tasks_to_list
             | _ \<Rightarrow> tasks_to_list)
      in sort_key sort_key_of tasks_to_list)"

text \<open>\<^verbatim>\<open>Tasks.generate_report\<close> sorts the store's own list in place and returns it.\<close>

definition generate_report :: "Tasks \<Rightarrow> task list \<times> Tasks" where
  "generate_report self =
     (let self' = self\<lparr>tasks := sort_key sort_key_of (tasks self)\<rparr>
      in (tasks self', self'))"

text \<open>
  One call on a store object, with its return value dropped, and a sequence of such
  calls on the same object, used to speak about the stores the operations can build.
\<close>

datatype op =
    Add datetime str int "string option"
  | Delete int
  | Done datetime int
  | List "str list option"
  | Report

fun apply_op :: "'b pickler \<Rightarrow> op \<Rightarrow> Tasks \<times> 'b fs \<Rightarrow> Tasks \<times> 'b fs" where
  "apply_op pk (Add now nm prio due) w = snd (add_task pk now nm prio due w)"
| "apply_op pk (Delete tid) w = delete_task pk tid w"
| "apply_op pk (Done now tid) w = snd (mark_complete pk now tid w)"
| "apply_op pk (List query) w = w"
| "apply_op pk Report w = (snd (generate_report (fst w)), snd w)"

fun run :: "'b pickler \<Rightarrow> op list \<Rightarrow> Tasks \<times> 'b fs \<Rightarrow> Tasks \<times> 'b fs" where
  "run pk [] w = w"
| "run pk (x # xs) w = run pk xs (apply_op pk x w)"

section \<open>Notions of the specification\<close>

text \<open>
  What a \<^verbatim>\<open>datetime\<close> object can hold, and the dates among them: the values with
  time of day 00:00:00, which is what parsing a due date yields.
\<close>

definition valid_datetime :: "datetime \<Rightarrow> bool" where
  "valid_datetime x =
     (case x of (y, m, d, h, mi, s, us) \<Rightarrow>
        1 \<le> y \<and> y \<le> 9999 \<and> 1 \<le> m \<and> m \<le> 12 \<and> 1 \<le> d \<and> d \<le> days_in_month y m \<and>
        0 \<le> h \<and> h \<le> 23 \<and> 0 \<le> mi \<and> mi \<le> 59 \<and> 0 \<le> s \<and> s \<le> 59 \<and>
        0 \<le> us \<and> us \<le> 999999)"

definition is_date :: "datetime \<Rightarrow> bool" where
  "is_date x =
     (valid_datetime x \<and>
      (case x of (y, m, d, h, mi, s, us) \<Rightarrow> h = 0 \<and> mi = 0 \<and> s = 0 \<and> us = 0))"

definition due_is_date :: "task \<Rightarrow> bool" where
  "due_is_date t = (case due_date t of None \<Rightarrow> True | Some d \<Rightarrow> is_date d)"

text \<open>
  The order of a listing: an earlier due date first, no due date after any due date,
  and among equal due dates the higher priority first.
\<close>

definition due_earlier :: "datetime option \<Rightarrow> datetime option \<Rightarrow> bool" where
  "due_earlier a b =
     (case a of None \<Rightarrow> False | Some x \<Rightarrow> (case b of None \<Rightarrow> True | Some y \<Rightarrow> x < y))"

definition listed_before :: "task \<Rightarrow> task \<Rightarrow> bool" where
  "listed_before a b =
     (due_earlier (due_date a) (due_date b) \<or>
      (due_date a = due_date b \<and> priority b \<le> priority a))"

text \<open>
  The tasks a listing selects: open, and, when terms are given, with a name whose
  lowered form contains the lowered form of one of the terms.
\<close>

definition name_matches :: "(str \<Rightarrow> str) \<Rightarrow> str \<Rightarrow> task \<Rightarrow> bool" where
  "name_matches lower term t = sublist (lower term) (lower (name t))"

definition selected :: "(str \<Rightarrow> str) \<Rightarrow> str list option \<Rightarrow> task \<Rightarrow> bool" where
  "selected lower query t =
     (\<not> is_completed t \<and>
      (case query of
         Some (q # qs) \<Rightarrow> (\<exists>term \<in> set (q # qs). name_matches lower term t)
       | _ \<Rightarrow> True))"

text \<open>The literal shape MM/DD/YYYY: two digits, a slash, two digits, a slash, four digits.\<close>

definition mm_dd_yyyy_form :: "string \<Rightarrow> bool" where
  "mm_dd_yyyy_form s =
     (length s = 10 \<and> s ! 2 = CHR ''/'' \<and> s ! 5 = CHR ''/'' \<and>
      list_all (between CHR ''0'' CHR ''9'') (map ((!) s) [0, 1, 3, 4, 6, 7, 8, 9]))"

text \<open>
  How a task of the store before a call shows up after it: unchanged, or, when the
  call completes its id, with the completion time set to the time of the call.
\<close>

definition carried_over :: "op \<Rightarrow> task \<Rightarrow> task \<Rightarrow> bool" where
  "carried_over x t t' =
     (t' = t \<or>
      (case x of
         Done now tid \<Rightarrow> task_id t = tid \<and> t' = t\<lparr>completed := Some now\<rparr>
       | _ \<Rightarrow> False))"

text \<open>
  The tasks a call takes out of the store: only a delete takes any, and only those with
  its id. The calls that may put a new task into the store: only an add.
\<close>

definition removes :: "op \<Rightarrow> task \<Rightarrow> bool" where
  "removes x t = (case x of Delete tid \<Rightarrow> task_id t = tid | _ \<Rightarrow> False)"

definition adds :: "op \<Rightarrow> bool" where
  "adds x = (case x of Add now nm prio due \<Rightarrow> True | _ \<Rightarrow> False)"

text \<open>
  The ids of a list are 1, 2, ... in list order; and the calls that neither remove nor
  reorder tasks.
\<close>

definition ids_in_sequence :: "task list \<Rightarrow> bool" where
  "ids_in_sequence ts = (map task_id ts = map int [1..<Suc (length ts)])"

definition keeps_positions :: "op \<Rightarrow> bool" where
  "keeps_positions x = (case x of Delete tid \<Rightarrow> False | Report \<Rightarrow> False | _ \<Rightarrow> True)"

section \<open>Example data\<close>

text \<open>
  A serializer for the examples: a file content is \<open>Some\<close> of the task list written,
  and \<open>None\<close> stands for a content that cannot be decoded.
\<close>

definition demo_pickler :: "task list option pickler" where
  "demo_pickler =
     \<lparr>dump = Some,
      load = (\<lambda>b. case b of None \<Rightarrow> Inl UnpicklingError | Some ts \<Rightarrow> Inr ts)\<rparr>"

definition empty_store :: Tasks where
  "empty_store = \<lparr>file_path = ''.todo.pickle'', tasks = []\<rparr>"

definition no_files :: "task list option fs" where
  "no_files = (\<lambda>p. None)"

definition clock :: "int \<Rightarrow> datetime" where
  "clock h = (2024, 12, 1, h, 0, 0, 0)"

text \<open>
  \<^verbatim>\<open>str.lower\<close> for the examples, on text made of ASCII characters and the Greek
  capital letters (code points 913 to 937) and small letters (945 to 969). A capital
  letter becomes the small one 32 places on. The capital sigma (931) becomes the final small
  sigma (962) when a cased letter precedes it and none follows it, case-ignorable
  characters (apostrophe, full stop, colon, circumflex, grave accent) skipped, and the
  small sigma (963) otherwise. \<open>before\<close> holds the characters to the left, nearest first.
\<close>

definition cased :: "nat \<Rightarrow> bool" where
  "cased c =
     ((65 \<le> c \<and> c \<le> 90) \<or> (97 \<le> c \<and> c \<le> 122) \<or>
      (913 \<le> c \<and> c \<le> 937 \<and> c \<noteq> 930) \<or> (945 \<le> c \<and> c \<le> 969))"

definition case_ignorable :: "nat \<Rightarrow> bool" where
  "case_ignorable c = (c = 39 \<or> c = 46 \<or> c = 58 \<or> c = 94 \<or> c = 96)"

definition final_sigma :: "str \<Rightarrow> str \<Rightarrow> bool" where
  "final_sigma before after =
     ((case dropWhile case_ignorable before of [] \<Rightarrow> False | c # _ \<Rightarrow> cased c) \<and>
      (case dropWhile case_ignorable after of [] \<Rightarrow> True | c # _ \<Rightarrow> \<not> cased c))"

fun lower_from :: "str \<Rightarrow> str \<Rightarrow> str" where
  "lower_from before [] = []"
| "lower_from before (c # cs) =
     (if c = 931 then (if final_sigma before cs then 962 else 963)
      else if (65 \<le> c \<and> c \<le> 90) \<or> (913 \<le> c \<and> c \<le> 937 \<and> c \<noteq> 930) then c + 32
      else c) # lower_from (c # before) cs"

definition demo_lower :: "str \<Rightarrow> str" where
  "demo_lower s = lower_from [] s"


definition demo_store :: Tasks where
  "demo_store =
     \<lparr>file_path = ''.todo.pickle'',
      tasks =
        [\<lparr>task_id = 1, name = ascii ''Buy Milk'', priority = 1, created = clock 9,
          due_date = Some (2025, 1, 1, 0, 0, 0, 0), completed = None\<rparr>,
         \<lparr>task_id = 2, name = ascii ''call bob'', priority = 3, created = clock 10,
          due_date = None, completed = None\<rparr>,
         \<lparr>task_id = 3, name = ascii ''File taxes'', priority = 3, created = clock 11,
          due_date = Some (2025, 1, 1, 0, 0, 0, 0), completed = None\<rparr>,
         \<lparr>task_id = 4, name = ascii ''Done thing'', priority = 2, created = clock 12,
          due_date = None, completed = Some (clock 13)\<rparr>]\<rparr>"

section \<open>Properties\<close>

subsection \<open>The library functions\<close>

lemma str_in_sublist: "str_in q s = sublist q s"
  by (induction s) (simp_all add: sublist_Cons_right)

lemma dv_digit: "between CHR ''0'' CHR ''9'' c \<Longrightarrow> 0 \<le> dv c \<and> dv c \<le> 9"
  by (auto simp: between_def dv_def)

lemma dv_bounds:
  "between CHR ''1'' CHR ''9'' c \<Longrightarrow> 1 \<le> dv c \<and> dv c \<le> 9"
  "between CHR ''0'' CHR ''2'' c \<Longrightarrow> 0 \<le> dv c \<and> dv c \<le> 2"
  "between CHR ''0'' CHR ''1'' c \<Longrightarrow> 0 \<le> dv c \<and> dv c \<le> 1"
  "between CHR ''1'' CHR ''2'' c \<Longrightarrow> 1 \<le> dv c \<and> dv c \<le> 2"
  by (auto simp: between_def dv_def)

lemma month_alts_range: "(m, r) \<in> set (month_alts s) \<Longrightarrow> 1 \<le> m \<and> m \<le> 12"
  by (auto simp: month_alts_def split: list.splits if_splits dest: dv_bounds dv_digit)

lemma day_alts_range: "(d, r) \<in> set (day_alts s) \<Longrightarrow> 1 \<le> d \<and> d \<le> 31"
  by (auto simp: day_alts_def split: list.splits if_splits dest!: dv_bounds dv_digit)

lemma year_alts_range: "(y, r) \<in> set (year_alts s) \<Longrightarrow> 0 \<le> y \<and> y \<le> 9999"
  by (auto simp: year_alts_def split: list.splits if_splits dest!: dv_digit)

lemma regex_matches_range:
  assumes "(m, d, y, r) \<in> set (regex_matches s)"
  shows "1 \<le> m \<and> m \<le> 12 \<and> 1 \<le> d \<and> d \<le> 31 \<and> 0 \<le> y \<and> y \<le> 9999"
proof -
  from assms obtain r1 r2 r3 r4 where
    "(m, r1) \<in> set (month_alts s)" "(d, r3) \<in> set (day_alts r2)" "(y, r) \<in> set (year_alts r4)"
    by (auto simp: regex_matches_def)
  then show ?thesis
    using month_alts_range day_alts_range year_alts_range by blast
qed

lemma strptime_is_date: "strptime s = Inr x \<Longrightarrow> is_date x"
proof -
  assume a: "strptime s = Inr x"
  then obtain m d y r rest where ms: "regex_matches s = (m, d, y, r) # rest"
    by (auto simp: strptime_def split: list.splits)
  then have "(m, d, y, r) \<in> set (regex_matches s)"
    by simp
  from regex_matches_range [OF this]
  have rg: "1 \<le> m" "m \<le> 12" "1 \<le> d" "y \<le> 9999"
    by simp_all
  from a ms have "x = (y, m, d, 0, 0, 0, 0)" "1 \<le> y" "d \<le> days_in_month y m"
    by (auto simp: strptime_def split: if_splits)
  with rg show ?thesis
    by (simp add: is_date_def valid_datetime_def)
qed

lemma is_date_less_max: "is_date d \<Longrightarrow> d < datetime_max"
proof -
  assume a: "is_date d"
  obtain y m dd h mi s us where d: "d = (y, m, dd, h, mi, s, us)" by (cases d) auto
  from a d have "y \<le> 9999" "m \<le> 12" "dd \<le> days_in_month y m" "h = 0"
    by (auto simp: is_date_def valid_datetime_def)
  moreover have "days_in_month y m \<le> 31" by (simp add: days_in_month_def)
  ultimately show ?thesis unfolding d datetime_max_def
    by (simp add: less_prod_def)
qed

subsection \<open>Due dates of the store are dates\<close>

text \<open>
  Every due date a task gets comes from the parser, and no operation changes it, so
  every store built by the operations from an empty one holds dates only.
\<close>

lemma Task_init_due_is_date: "Task_init now tid nm prio due = Inr t \<Longrightarrow> due_is_date t"
  by (auto simp: Task_init_def due_is_date_def map_sum_def strptime_is_date
      split: option.splits sum.splits if_splits)

lemma mark_first_due_date:
  "mark_first now tid ts = Some ts' \<Longrightarrow> map due_date ts' = map due_date ts"
  by (induction ts arbitrary: ts') (auto simp: task_mark_complete_def split: if_splits)

lemma apply_op_due_is_date:
  assumes "list_all due_is_date (tasks (fst w))"
  shows "list_all due_is_date (tasks (fst (apply_op pk x w)))"
proof (cases x)
  case (Add now nm prio due)
  with assms show ?thesis
    by (cases w) (auto simp: add_task_def Let_def Task_init_due_is_date split: sum.splits)
next
  case (Delete tid)
  with assms show ?thesis
    by (cases w) (auto simp: delete_task_def Let_def list_all_iff)
next
  case (Done now tid)
  show ?thesis
  proof (cases "mark_first now tid (tasks (fst w))")
    case None
    with Done assms show ?thesis
      by (cases w) (simp add: mark_complete_def)
  next
    case (Some ts')
    from mark_first_due_date [OF Some] assms have "list_all due_is_date ts'"
      by (simp add: list_all_iff due_is_date_def) (metis (no_types, lifting) image_iff list.set_map)
    with Done Some show ?thesis
      by (cases w) (simp add: mark_complete_def Let_def)
  qed
next
  case (List query)
  with assms show ?thesis by simp
next
  case Report
  with assms show ?thesis
    by (simp add: generate_report_def Let_def list_all_iff)
qed

lemma run_due_is_date:
  "list_all due_is_date (tasks (fst w)) \<Longrightarrow> list_all due_is_date (tasks (fst (run pk xs w)))"
  by (induction xs arbitrary: w) (simp_all add: apply_op_due_is_date)

lemma reachable_due_is_date:
  "list_all due_is_date (tasks (fst (run pk xs (\<lparr>file_path = path, tasks = []\<rparr>, files))))"
  by (rule run_due_is_date) simp

subsection \<open>Listing and reporting\<close>

lemma list_tasks_eq: "list_tasks lower query self = sort_key sort_key_of (filter (selected lower query) (tasks self))"
proof (cases query)
  case None
  then show ?thesis by (simp add: list_tasks_def selected_def[abs_def])
next
  case (Some qs)
  show ?thesis
  proof (cases qs)
    case Nil
    with Some show ?thesis by (simp add: list_tasks_def selected_def[abs_def])
  next
    case (Cons q qs')
    with Some show ?thesis
      by (simp add: list_tasks_def selected_def[abs_def] name_matches_def str_in_sublist list_ex_iff)
  qed
qed

lemma key_le_listed_before:
  assumes "due_is_date a" "due_is_date b" "sort_key_of a \<le> sort_key_of b"
  shows "listed_before a b"
proof (cases "due_date a")
  case None
  note a = this
  show ?thesis
  proof (cases "due_date b")
    case None
    with a assms(3) show ?thesis by (simp add: sort_key_of_def listed_before_def)
  next
    case (Some y)
    with assms(2) have "y < datetime_max" by (simp add: due_is_date_def is_date_less_max)
    with a Some assms(3) show ?thesis by (auto simp: sort_key_of_def)
  qed
next
  case (Some x)
  note a = this
  show ?thesis
  proof (cases "due_date b")
    case None
    with a show ?thesis by (simp add: listed_before_def due_earlier_def)
  next
    case (Some y)
    with a assms(3) show ?thesis
      by (auto simp: sort_key_of_def listed_before_def due_earlier_def)
  qed
qed

lemma sorted_wrt_sort_key_of:
  assumes "list_all due_is_date xs"
  shows "sorted_wrt listed_before (sort_key sort_key_of xs)"
proof -
  have "sorted (map sort_key_of (sort_key sort_key_of xs))" by (rule sorted_sort_key)
  then have "sorted_wrt (\<lambda>a b. sort_key_of a \<le> sort_key_of b) (sort_key sort_key_of xs)"
    by (simp add: sorted_map)
  then show ?thesis
  proof (rule sorted_wrt_mono_rel[rotated])
    fix a b assume "a \<in> set (sort_key sort_key_of xs)" "b \<in> set (sort_key sort_key_of xs)"
      "sort_key_of a \<le> sort_key_of b"
    with assms show "listed_before a b"
      by (auto simp: list_all_iff intro: key_le_listed_before)
  qed
qed

lemma stable_sort_key_of:
  "filter (\<lambda>t. due_date t = d \<and> priority t = p) (sort_key sort_key_of xs) =
   filter (\<lambda>t. due_date t = d \<and> priority t = p) xs"
proof -
  let ?k = "(case d of None \<Rightarrow> datetime_max | Some x \<Rightarrow> x, - p)"
  have eq: "(\<lambda>t. due_date t = d \<and> priority t = p) = (\<lambda>t. sort_key_of t = ?k \<and> due_date t = d)"
    by (auto simp: sort_key_of_def)
  have "filter (\<lambda>t. sort_key_of t = ?k \<and> due_date t = d) (sort_key sort_key_of xs)
      = filter (\<lambda>t. due_date t = d) (filter (\<lambda>t. sort_key_of t = ?k) (sort_key sort_key_of xs))"
    by simp
  also have "\<dots> = filter (\<lambda>t. due_date t = d) (filter (\<lambda>t. sort_key_of t = ?k) xs)"
    by (simp only: sort_key_stable)
  also have "\<dots> = filter (\<lambda>t. sort_key_of t = ?k \<and> due_date t = d) xs"
    by simp
  finally show ?thesis by (simp only: eq)
qed

lemma demo_tasks: "list_all due_is_date (tasks demo_store)"
  by (simp add: demo_store_def due_is_date_def is_date_def valid_datetime_def days_in_month_def)

text \<open>
  Claim C1. In a store whose due dates are dates (time of day 00:00:00, as parsing a due
  date yields), the lists returned by \<open>list_tasks\<close> and \<open>generate_report\<close> are in
  listing order: earlier due date first, no due date after every due date, higher
  priority first among equal due dates. The report holds every task of the store.
  Tasks with the same due date and the same priority keep the order they have in the
  store.
\<close>

theorem sorted_listing:
  assumes "list_all due_is_date (tasks self)"
  shows "sorted_wrt listed_before (list_tasks lower query self) \<and>
         sorted_wrt listed_before (fst (generate_report self)) \<and>
         mset (fst (generate_report self)) = mset (tasks self) \<and>
         filter (\<lambda>t. due_date t = d \<and> priority t = p) (list_tasks lower query self) =
           filter (\<lambda>t. due_date t = d \<and> priority t = p) (filter (selected lower query) (tasks self)) \<and>
         filter (\<lambda>t. due_date t = d \<and> priority t = p) (fst (generate_report self)) =
           filter (\<lambda>t. due_date t = d \<and> priority t = p) (tasks self)"
proof -
  from assms have "list_all due_is_date (filter (selected lower query) (tasks self))"
    by (simp add: list_all_iff)
  then have "sorted_wrt listed_before (list_tasks lower query self)"
    unfolding list_tasks_eq by (rule sorted_wrt_sort_key_of)
  moreover from assms have "sorted_wrt listed_before (fst (generate_report self))"
    by (simp add: generate_report_def sorted_wrt_sort_key_of)
  moreover have "mset (fst (generate_report self)) = mset (tasks self)"
    by (simp add: generate_report_def)
  moreover have "filter (\<lambda>t. due_date t = d \<and> priority t = p) (list_tasks lower query self) =
           filter (\<lambda>t. due_date t = d \<and> priority t = p) (filter (selected lower query) (tasks self))"
    unfolding list_tasks_eq by (rule stable_sort_key_of)
  moreover have "filter (\<lambda>t. due_date t = d \<and> priority t = p) (fst (generate_report self)) =
           filter (\<lambda>t. due_date t = d \<and> priority t = p) (tasks self)"
    by (simp add: generate_report_def stable_sort_key_of)
  ultimately show ?thesis by blast
qed

theorem sorted_listing_witness:
  "list_all due_is_date (tasks demo_store) \<and>
   map task_id (list_tasks demo_lower None demo_store) = [3, 1, 2] \<and>
   map task_id (fst (generate_report demo_store)) = [3, 1, 2, 4] \<and>
   sorted_wrt listed_before (list_tasks demo_lower None demo_store) \<and>
   sorted_wrt listed_before (fst (generate_report demo_store))"
proof -
  have v1: "map task_id (list_tasks demo_lower None demo_store) = [3, 1, 2]"
    by (simp add: demo_store_def clock_def list_tasks_def is_completed_def sort_key_of_def datetime_max_def)
  have v2: "map task_id (fst (generate_report demo_store)) = [3, 1, 2, 4]"
    by (simp add: demo_store_def clock_def generate_report_def sort_key_of_def datetime_max_def)
  from sorted_listing [OF demo_tasks, where query = None and lower = demo_lower] demo_tasks v1 v2
  show ?thesis by simp
qed




text \<open>
  Claim C10. An empty list of query terms is the same as no query: no name filter is
  applied and every open task is returned.
\<close>

theorem empty_query_is_no_query:
  "list_tasks lower (Some []) self = list_tasks lower None self \<and>
   mset (list_tasks lower (Some []) self) = filter_mset (\<lambda>t. \<not> is_completed t) (mset (tasks self))"
  by (simp add: list_tasks_def)

theorem empty_query_is_no_query_witness:
  "list_tasks demo_lower (Some []) demo_store = list_tasks demo_lower None demo_store \<and>
   map task_id (list_tasks demo_lower (Some []) demo_store) = [3, 1, 2]"
proof -
  have v1: "map task_id (list_tasks demo_lower None demo_store) = [3, 1, 2]"
    by (simp add: demo_store_def clock_def list_tasks_def is_completed_def sort_key_of_def datetime_max_def)
  from empty_query_is_no_query [of demo_lower demo_store] v1 show ?thesis by simp
qed

subsection \<open>Completing a task\<close>

lemma mark_first_None: "mark_first now tid ts = None \<longleftrightarrow> (\<forall>t \<in> set ts. task_id t \<noteq> tid)"
  by (induction ts) auto

lemma mark_first_Some:
  assumes "mark_first now tid ts = Some ts'"
  shows "\<exists>pre t post. ts = pre @ t # post \<and> task_id t = tid \<and>
           (\<forall>u \<in> set pre. task_id u \<noteq> tid) \<and>
           ts' = pre @ t\<lparr>completed := Some now\<rparr> # post"
  using assms
proof (induction ts arbitrary: ts')
  case Nil
  then show ?case by simp
next
  case (Cons a ts)
  show ?case
  proof (cases "task_id a = tid")
    case True
    with Cons.prems have "ts' = a\<lparr>completed := Some now\<rparr> # ts"
      by (simp add: task_mark_complete_def)
    with True have "a # ts = [] @ a # ts \<and> task_id a = tid \<and>
        (\<forall>u \<in> set []. task_id u \<noteq> tid) \<and> ts' = [] @ a\<lparr>completed := Some now\<rparr> # ts"
      by simp
    then show ?thesis by blast
  next
    case False
    with Cons.prems obtain r where r: "mark_first now tid ts = Some r" "ts' = a # r"
      by auto
    from Cons.IH [OF r(1)] obtain pre t post where
      "ts = pre @ t # post" "task_id t = tid" "\<forall>u \<in> set pre. task_id u \<noteq> tid"
      "r = pre @ t\<lparr>completed := Some now\<rparr> # post"
      by blast
    with False r(2) have "a # ts = (a # pre) @ t # post \<and> task_id t = tid \<and>
        (\<forall>u \<in> set (a # pre). task_id u \<noteq> tid) \<and>
        ts' = (a # pre) @ t\<lparr>completed := Some now\<rparr> # post"
      by simp
    then show ?thesis by blast
  qed
qed

text \<open>
  Claim C3. When some task has the id, \<open>mark_complete\<close> returns \<open>True\<close>, sets the
  completion time of the first such task to the time of the call, leaves every other
  task as it was, and writes the new list to the store's file. When no task has the
  id it returns \<open>False\<close> and neither the store nor the file system changes.
\<close>

theorem mark_complete_found_or_not:
  "((\<exists>t \<in> set (tasks self). task_id t = tid) \<longrightarrow>
      (\<exists>pre t post.
         tasks self = pre @ t # post \<and> task_id t = tid \<and> (\<forall>u \<in> set pre. task_id u \<noteq> tid) \<and>
         mark_complete pk now tid (self, files) =
           (True,
            self\<lparr>tasks := pre @ t\<lparr>completed := Some now\<rparr> # post\<rparr>,
            files(file_path self \<mapsto> dump pk (pre @ t\<lparr>completed := Some now\<rparr> # post))))) \<and>
   ((\<forall>t \<in> set (tasks self). task_id t \<noteq> tid) \<longrightarrow>
      mark_complete pk now tid (self, files) = (False, self, files))"
proof (intro conjI impI)
  assume "\<exists>t \<in> set (tasks self). task_id t = tid"
  then have "mark_first now tid (tasks self) \<noteq> None"
    by (simp add: mark_first_None)
  then obtain ts' where ts': "mark_first now tid (tasks self) = Some ts'"
    by blast
  from mark_first_Some [OF ts'] obtain pre t post where
    p: "tasks self = pre @ t # post" "task_id t = tid" "\<forall>u \<in> set pre. task_id u \<noteq> tid"
       "ts' = pre @ t\<lparr>completed := Some now\<rparr> # post"
    by blast
  have "mark_complete pk now tid (self, files) =
          (True, self\<lparr>tasks := ts'\<rparr>, files(file_path self \<mapsto> dump pk ts'))"
    by (simp add: mark_complete_def ts' save_tasks_def)
  with p show "\<exists>pre t post.
         tasks self = pre @ t # post \<and> task_id t = tid \<and> (\<forall>u \<in> set pre. task_id u \<noteq> tid) \<and>
         mark_complete pk now tid (self, files) =
           (True,
            self\<lparr>tasks := pre @ t\<lparr>completed := Some now\<rparr> # post\<rparr>,
            files(file_path self \<mapsto> dump pk (pre @ t\<lparr>completed := Some now\<rparr> # post)))"
    by blast
next
  assume "\<forall>t \<in> set (tasks self). task_id t \<noteq> tid"
  then have "mark_first now tid (tasks self) = None"
    by (simp add: mark_first_None)
  then show "mark_complete pk now tid (self, files) = (False, self, files)"
    by (simp add: mark_complete_def)
qed

theorem mark_complete_found_or_not_witness:
  "fst (mark_complete demo_pickler (clock 14) 2 (demo_store, no_files)) \<and>
   map completed (tasks (fst (snd (mark_complete demo_pickler (clock 14) 2 (demo_store, no_files)))))
     = [None, Some (clock 14), None, Some (clock 13)] \<and>
   mark_complete demo_pickler (clock 14) 9 (demo_store, no_files) = (False, demo_store, no_files)"
proof -
  have f: "\<exists>t \<in> set (tasks demo_store). task_id t = 2"
    by (simp add: demo_store_def)
  have n: "\<forall>t \<in> set (tasks demo_store). task_id t \<noteq> 9"
    by (simp add: demo_store_def)
  from n mark_complete_found_or_not
    [where self = demo_store and tid = 9 and pk = demo_pickler and now = "clock 14" and files = no_files]
  have a: "mark_complete demo_pickler (clock 14) 9 (demo_store, no_files) = (False, demo_store, no_files)"
    by blast
  from f mark_complete_found_or_not
    [where self = demo_store and tid = 2 and pk = demo_pickler and now = "clock 14" and files = no_files]
  obtain pre t post where
    "tasks demo_store = pre @ t # post" "task_id t = 2" "\<forall>u \<in> set pre. task_id u \<noteq> 2"
    "mark_complete demo_pickler (clock 14) 2 (demo_store, no_files) =
       (True, demo_store\<lparr>tasks := pre @ t\<lparr>completed := Some (clock 14)\<rparr> # post\<rparr>,
        no_files(file_path demo_store \<mapsto> dump demo_pickler (pre @ t\<lparr>completed := Some (clock 14)\<rparr> # post)))"
    by blast
  then have b: "fst (mark_complete demo_pickler (clock 14) 2 (demo_store, no_files))"
    by simp
  have c: "map completed (tasks (fst (snd (mark_complete demo_pickler (clock 14) 2 (demo_store, no_files)))))
     = [None, Some (clock 14), None, Some (clock 13)]"
    by (simp add: mark_complete_def demo_store_def task_mark_complete_def Let_def)
  from a b c show ?thesis by simp
qed

subsection \<open>Ids and deletion\<close>

lemma add_task_result:
  "add_task pk now nm prio due (self, files) = (Inr i, self', files') \<Longrightarrow>
   i = int (length (tasks self)) + 1 \<and>
   (\<exists>t. tasks self' = tasks self @ [t] \<and> task_id t = i \<and> completed t = None \<and>
        name t = nm \<and> priority t = prio \<and> created t = now) \<and>
   files' = files(file_path self \<mapsto> dump pk (tasks self'))"
  by (auto simp: add_task_def Task_init_def save_tasks_def Let_def map_sum_def
      split: sum.splits option.splits if_splits)

lemma delete_task_unique_id:
  assumes "distinct (map task_id (tasks self))" "tasks self = pre @ t # post" "task_id t = tid"
  shows "delete_task pk tid (self, files) =
           (self\<lparr>tasks := pre @ post\<rparr>, files(file_path self \<mapsto> dump pk (pre @ post)))"
proof -
  from assms have "\<forall>u \<in> set pre \<union> set post. task_id u \<noteq> tid"
    by (auto simp: image_iff)
  then have "filter (\<lambda>u. task_id u \<noteq> tid) (pre @ t # post) = pre @ post"
    using assms(3) by (simp add: filter_id_conv)
  with assms(2) show ?thesis
    by (simp add: delete_task_def save_tasks_def)
qed

lemma delete_task_absent_id:
  assumes "\<forall>t \<in> set (tasks self). task_id t \<noteq> tid"
  shows "delete_task pk tid (self, files) =
           (self, files(file_path self \<mapsto> dump pk (tasks self)))"
proof -
  from assms have "filter (\<lambda>u. task_id u \<noteq> tid) (tasks self) = tasks self"
    by (simp add: filter_id_conv)
  then show ?thesis
    by (simp add: delete_task_def save_tasks_def)
qed

text \<open>
  Without a delete (and without the in-place sort of the report), the ids of a store
  built from an empty one are 1, 2, ... in insertion order, hence distinct.
\<close>

lemma mark_first_task_id:
  "mark_first now tid ts = Some ts' \<Longrightarrow> map task_id ts' = map task_id ts"
  by (induction ts arbitrary: ts') (auto simp: task_mark_complete_def split: if_splits)

lemma Task_init_task_id: "Task_init now tid nm prio due = Inr t \<Longrightarrow> task_id t = tid"
  by (auto simp: Task_init_def split: sum.splits)

lemma apply_op_ids_in_sequence:
  assumes "ids_in_sequence (tasks (fst w))" "keeps_positions x"
  shows "ids_in_sequence (tasks (fst (apply_op pk x w)))"
proof (cases x)
  case (Add now nm prio due)
  show ?thesis
  proof (cases "Task_init now (int (length (tasks (fst w))) + 1) nm prio due")
    case (Inl e)
    with Add assms(1) show ?thesis
      by (cases w) (simp add: add_task_def)
  next
    case (Inr t)
    from Task_init_task_id [OF Inr] have "task_id t = int (Suc (length (tasks (fst w))))"
      by simp
    with Add Inr assms(1) show ?thesis
      by (cases w) (simp add: add_task_def Let_def ids_in_sequence_def)
  qed
next
  case (Delete tid)
  with assms(2) show ?thesis by (simp add: keeps_positions_def)
next
  case (Done now tid)
  show ?thesis
  proof (cases "mark_first now tid (tasks (fst w))")
    case None
    with Done assms(1) show ?thesis
      by (cases w) (simp add: mark_complete_def)
  next
    case (Some ts')
    from mark_first_task_id [OF Some] have "map task_id ts' = map task_id (tasks (fst w))" .
    moreover from this have "length ts' = length (tasks (fst w))"
      by (rule map_eq_imp_length_eq)
    ultimately have "ids_in_sequence ts'"
      using assms(1) by (simp add: ids_in_sequence_def)
    with Done Some show ?thesis
      by (cases w) (simp add: mark_complete_def Let_def)
  qed
next
  case (List query)
  with assms(1) show ?thesis by simp
next
  case Report
  with assms(2) show ?thesis by (simp add: keeps_positions_def)
qed

lemma run_ids_in_sequence:
  "ids_in_sequence (tasks (fst w)) \<Longrightarrow> list_all keeps_positions xs \<Longrightarrow>
   ids_in_sequence (tasks (fst (run pk xs w)))"
  by (induction xs arbitrary: w) (simp_all add: apply_op_ids_in_sequence)

lemma ids_without_delete:
  assumes "list_all keeps_positions xs"
  shows "map task_id (tasks (fst (run pk xs (\<lparr>file_path = path, tasks = []\<rparr>, files)))) =
           map int [1..<Suc (length (tasks (fst (run pk xs (\<lparr>file_path = path, tasks = []\<rparr>, files)))))]"
proof -
  have "ids_in_sequence (tasks (fst (\<lparr>file_path = path, tasks = []\<rparr>, files)))"
    by (simp add: ids_in_sequence_def)
  from run_ids_in_sequence [OF this assms] show ?thesis
    by (simp add: ids_in_sequence_def)
qed

text \<open>
  Claim C5 fails on the code: three adds, deleting id 2 and one more add leave two
  tasks with id 3, since the new id is the current length plus one.
\<close>

theorem duplicate_id_after_delete:
  "map task_id (tasks (fst (run demo_pickler
      [Add (clock 9) (ascii ''a'') 1 None, Add (clock 10) (ascii ''b'') 1 None, Add (clock 11) (ascii ''c'') 1 None,
       Delete 2, Add (clock 12) (ascii ''d'') 1 None]
      (empty_store, no_files)))) = [1, 3, 3]"
  by (simp add: add_task_def Task_init_def delete_task_def save_tasks_def empty_store_def Let_def)

text \<open>
  Claim C4 fails on the code in a store the operations build: after three adds,
  deleting id 2 and one more add, the tasks c and d both have id 3, and deleting id 3
  removes both of them.
\<close>

theorem delete_removes_two_tasks:
  "map name (tasks (fst (run demo_pickler
      [Add (clock 9) (ascii ''a'') 1 None, Add (clock 10) (ascii ''b'') 1 None, Add (clock 11) (ascii ''c'') 1 None,
       Delete 2, Add (clock 12) (ascii ''d'') 1 None]
      (empty_store, no_files)))) = [ascii ''a'', ascii ''c'', ascii ''d''] \<and>
   map name (tasks (fst (run demo_pickler
      [Add (clock 9) (ascii ''a'') 1 None, Add (clock 10) (ascii ''b'') 1 None, Add (clock 11) (ascii ''c'') 1 None,
       Delete 2, Add (clock 12) (ascii ''d'') 1 None, Delete 3]
      (empty_store, no_files)))) = [ascii ''a'']"
  by (simp add: add_task_def Task_init_def delete_task_def save_tasks_def empty_store_def Let_def)

subsection \<open>The fields of a task over time\<close>

text \<open>
  Claim C6 as stated fails: completing the same id a second time replaces the
  completion time set by the first call.
\<close>

theorem completed_overwritten:
  "map completed (tasks (fst (run demo_pickler
      [Add (clock 9) (ascii ''a'') 1 None, Done (clock 10) 1] (empty_store, no_files)))) = [Some (clock 10)] \<and>
   map completed (tasks (fst (run demo_pickler
      [Add (clock 9) (ascii ''a'') 1 None, Done (clock 10) 1, Done (clock 11) 1] (empty_store, no_files))))
     = [Some (clock 11)] \<and>
   clock 10 \<noteq> clock 11"
  by (simp add: add_task_def Task_init_def mark_complete_def task_mark_complete_def save_tasks_def
      empty_store_def Let_def clock_def)

lemma carried_over_fields:
  assumes "carried_over x t t'"
  shows "task_id t' = task_id t \<and> created t' = created t \<and> name t' = name t \<and>
         priority t' = priority t \<and> due_date t' = due_date t \<and>
         (completed t \<noteq> None \<longrightarrow> completed t' \<noteq> None) \<and>
         (completed t' \<noteq> completed t \<longrightarrow>
            (\<exists>now. x = Done now (task_id t) \<and> completed t' = Some now))"
  using assms by (auto simp: carried_over_def split: op.splits)

lemma carried_over_refl: "list_all2 (carried_over x) ts ts"
  by (rule list_all2_refl) (simp add: carried_over_def)

lemma mark_first_carried_over:
  "mark_first now tid ts = Some ts' \<Longrightarrow> list_all2 (carried_over (Done now tid)) ts ts'"
proof (induction ts arbitrary: ts')
  case Nil
  then show ?case by simp
next
  case (Cons a ts)
  show ?case
  proof (cases "task_id a = tid")
    case True
    with Cons.prems have "ts' = a\<lparr>completed := Some now\<rparr> # ts"
      by (simp add: task_mark_complete_def)
    moreover from True have "carried_over (Done now tid) a (a\<lparr>completed := Some now\<rparr>)"
      by (simp add: carried_over_def)
    ultimately show ?thesis
      by (simp add: carried_over_refl)
  next
    case False
    with Cons.prems obtain r where "mark_first now tid ts = Some r" "ts' = a # r"
      by auto
    with Cons.IH show ?thesis
      by (simp add: carried_over_def)
  qed
qed

text \<open>
  Claim C6, as amended. The tasks of the store before a call, less those a delete takes
  out, can be listed so that the store after the call is that list with each task
  carried over, followed, only for an add, by at most one new open task. A task
  carried over is unchanged in every field, except that a call completing its id sets
  its completion time to the time of the call. So no call changes the id or the
  creation time of a task, none clears a completion time, and a completion time changes
  only when the task's id is completed again.
\<close>

theorem tasks_carried_over:
  "\<exists>xs ys. mset xs = filter_mset (\<lambda>t. \<not> removes x t) (mset (tasks self)) \<and>
     list_all2 (carried_over x) xs ys \<and>
     (tasks (fst (apply_op pk x (self, files))) = ys \<or>
      adds x \<and>
      (\<exists>new. completed new = None \<and> tasks (fst (apply_op pk x (self, files))) = ys @ [new]))"
proof (cases x)
  case (Add now nm prio due)
  then have all: "mset (tasks self) = filter_mset (\<lambda>t. \<not> removes x t) (mset (tasks self))"
    by (simp add: removes_def)
  show ?thesis
  proof (cases "Task_init now (int (length (tasks self)) + 1) nm prio due")
    case (Inl e)
    with Add have "tasks (fst (apply_op pk x (self, files))) = tasks self"
      by (simp add: add_task_def)
    with all show ?thesis
      using carried_over_refl [of x "tasks self"] by blast
  next
    case (Inr t)
    then have "completed t = None"
      by (auto simp: Task_init_def split: sum.splits)
    moreover from Add Inr have "tasks (fst (apply_op pk x (self, files))) = tasks self @ [t]"
      by (simp add: add_task_def Let_def)
    moreover from Add have "adds x"
      by (simp add: adds_def)
    ultimately show ?thesis
      using all carried_over_refl [of x "tasks self"] by blast
  qed
next
  case (Delete tid)
  let ?ys = "filter (\<lambda>t. task_id t \<noteq> tid) (tasks self)"
  from Delete have "tasks (fst (apply_op pk x (self, files))) = ?ys"
    by (simp add: delete_task_def Let_def)
  moreover from Delete have "mset ?ys = filter_mset (\<lambda>t. \<not> removes x t) (mset (tasks self))"
    by (simp add: removes_def)
  ultimately show ?thesis
    using carried_over_refl [of x ?ys] by blast
next
  case (Done now tid)
  then have all: "mset (tasks self) = filter_mset (\<lambda>t. \<not> removes x t) (mset (tasks self))"
    by (simp add: removes_def)
  show ?thesis
  proof (cases "mark_first now tid (tasks self)")
    case None
    with Done have "tasks (fst (apply_op pk x (self, files))) = tasks self"
      by (simp add: mark_complete_def)
    with all show ?thesis
      using carried_over_refl [of x "tasks self"] by blast
  next
    case (Some ts')
    with Done have "tasks (fst (apply_op pk x (self, files))) = ts'"
      by (simp add: mark_complete_def Let_def)
    moreover from Some Done have "list_all2 (carried_over x) (tasks self) ts'"
      by (simp add: mark_first_carried_over)
    ultimately show ?thesis
      using all by blast
  qed
next
  case (List query)
  then have "mset (tasks self) = filter_mset (\<lambda>t. \<not> removes x t) (mset (tasks self))"
    by (simp add: removes_def)
  moreover from List have "tasks (fst (apply_op pk x (self, files))) = tasks self"
    by simp
  ultimately show ?thesis
    using carried_over_refl [of x "tasks self"] by blast
next
  case Report
  let ?ys = "sort_key sort_key_of (tasks self)"
  from Report have "tasks (fst (apply_op pk x (self, files))) = ?ys"
    by (simp add: generate_report_def Let_def)
  moreover from Report have "mset ?ys = filter_mset (\<lambda>t. \<not> removes x t) (mset (tasks self))"
    by (simp add: removes_def)
  ultimately show ?thesis
    using carried_over_refl [of x ?ys] by blast
qed

theorem tasks_carried_over_witness:
  "map completed (tasks (fst (apply_op demo_pickler (Done (clock 14) 4) (demo_store, no_files))))
     = [None, None, None, Some (clock 14)] \<and>
   (\<exists>xs ys. mset xs = mset (tasks demo_store) \<and>
      list_all2 (carried_over (Done (clock 14) 4)) xs ys \<and>
      tasks (fst (apply_op demo_pickler (Done (clock 14) 4) (demo_store, no_files))) = ys)"
proof -
  have v: "map completed (tasks (fst (apply_op demo_pickler (Done (clock 14) 4) (demo_store, no_files))))
     = [None, None, None, Some (clock 14)]"
    by (simp add: mark_complete_def demo_store_def task_mark_complete_def Let_def)
  from tasks_carried_over [of "Done (clock 14) 4" demo_store demo_pickler no_files] v
  show ?thesis by (simp add: removes_def adds_def)
qed

subsection \<open>Adding a task with a due-date text\<close>

lemma strptime_dashes: "strptime ''2025-12-25'' = Inl ValueError"
  by (simp add: strptime_def regex_matches_def month_alts_def slash_def between_def)

text \<open>
  Claim C7, as amended. A non-empty due-date text that the parser rejects makes
  \<open>add_task\<close> fail with the parser's error, and the store and the file system are left
  as they were: no task is appended and nothing is written. The empty text is not an
  error: it is handled as no due date.
\<close>

theorem add_task_parse_error_atomic:
  "(s \<noteq> [] \<and> strptime s = Inl e \<longrightarrow>
      add_task pk now nm prio (Some s) (self, files) = (Inl e, self, files)) \<and>
   add_task pk now nm prio (Some []) (self, files) = add_task pk now nm prio None (self, files)"
  by (simp add: add_task_def Task_init_def)

theorem add_task_parse_error_atomic_witness:
  "''2025-12-25'' \<noteq> [] \<and> strptime ''2025-12-25'' = Inl ValueError \<and>
   add_task demo_pickler (clock 14) (ascii ''Pay rent'') 2 (Some ''2025-12-25'') (demo_store, no_files)
     = (Inl ValueError, demo_store, no_files)"
  using add_task_parse_error_atomic
    [where s = "''2025-12-25''" and e = ValueError and pk = demo_pickler and now = "clock 14"
       and nm = "ascii ''Pay rent''" and prio = 2 and self = demo_store and files = no_files]
    strptime_dashes
  by simp

text \<open>
  Claim C7 as stated fails for the empty due-date text: it is not of the form
  MM/DD/YYYY, yet \<open>add_task\<close> returns an id, appends a task with no due date and
  writes the file.
\<close>

theorem empty_due_text_accepted:
  "\<not> mm_dd_yyyy_form [] \<and>
   fst (add_task demo_pickler (clock 14) (ascii ''Pay rent'') 2 (Some []) (empty_store, no_files)) = Inr 1 \<and>
   tasks (fst (snd (add_task demo_pickler (clock 14) (ascii ''Pay rent'') 2 (Some []) (empty_store, no_files))))
     = [\<lparr>task_id = 1, name = ascii ''Pay rent'', priority = 2, created = clock 14,
         due_date = None, completed = None\<rparr>] \<and>
   snd (snd (add_task demo_pickler (clock 14) (ascii ''Pay rent'') 2 (Some []) (empty_store, no_files)))
       ''.todo.pickle''
     = Some (Some [\<lparr>task_id = 1, name = ascii ''Pay rent'', priority = 2, created = clock 14,
         due_date = None, completed = None\<rparr>])"
  by (simp add: mm_dd_yyyy_form_def add_task_def Task_init_def empty_store_def save_tasks_def
      demo_pickler_def)

subsection \<open>Loading and saving\<close>

text \<open>
  Claim C8. Constructing a store with no file at its path gives the empty store, with
  no error. With a file there that the serializer cannot decode, the serializer's error
  is the result of the construction; with a decodable file, the decoded list is the store.
\<close>

theorem load_absent_or_corrupt:
  "(files path = None \<longrightarrow> Tasks_init pk path files = Inr \<lparr>file_path = path, tasks = []\<rparr>) \<and>
   (files path = Some b \<and> load pk b = Inl e \<longrightarrow> Tasks_init pk path files = Inl e) \<and>
   (files path = Some b \<and> load pk b = Inr ts \<longrightarrow>
      Tasks_init pk path files = Inr \<lparr>file_path = path, tasks = ts\<rparr>)"
  by (simp add: Tasks_init_def load_tasks_def)

theorem load_absent_or_corrupt_witness:
  "no_files ''.todo.pickle'' = None \<and>
   Tasks_init demo_pickler ''.todo.pickle'' no_files = Inr empty_store \<and>
   load demo_pickler None = Inl UnpicklingError \<and>
   Tasks_init demo_pickler ''.todo.pickle'' (no_files(''.todo.pickle'' \<mapsto> None)) = Inl UnpicklingError \<and>
   Tasks_init demo_pickler ''.todo.pickle'' (no_files(''.todo.pickle'' \<mapsto> Some (tasks demo_store))) = Inr demo_store"
proof -
  have h1: "no_files ''.todo.pickle'' = None"
    by (simp add: no_files_def)
  have h2: "(no_files(''.todo.pickle'' \<mapsto> None)) ''.todo.pickle'' = Some None \<and>
            load demo_pickler None = Inl UnpicklingError"
    by (simp add: demo_pickler_def)
  have h3: "(no_files(''.todo.pickle'' \<mapsto> Some (tasks demo_store))) ''.todo.pickle'' = Some (Some (tasks demo_store)) \<and>
            load demo_pickler (Some (tasks demo_store)) = Inr (tasks demo_store)"
    by (simp add: demo_pickler_def)
  from h1 load_absent_or_corrupt
    [where files = no_files and path = "''.todo.pickle''" and pk = demo_pickler]
  have a: "Tasks_init demo_pickler ''.todo.pickle'' no_files = Inr empty_store"
    by (simp add: empty_store_def)
  from h2 load_absent_or_corrupt
    [where files = "no_files(''.todo.pickle'' \<mapsto> None)" and path = "''.todo.pickle''"
       and pk = demo_pickler and b = None and e = UnpicklingError]
  have b: "Tasks_init demo_pickler ''.todo.pickle'' (no_files(''.todo.pickle'' \<mapsto> None)) = Inl UnpicklingError"
    by blast
  from h3 load_absent_or_corrupt
    [where files = "no_files(''.todo.pickle'' \<mapsto> Some (tasks demo_store))" and path = "''.todo.pickle''"
       and pk = demo_pickler and b = "Some (tasks demo_store)" and ts = "tasks demo_store"]
  have c: "Tasks_init demo_pickler ''.todo.pickle'' (no_files(''.todo.pickle'' \<mapsto> Some (tasks demo_store))) = Inr demo_store"
    by (simp add: demo_store_def)
  from h1 h2 a b c show ?thesis by simp
qed

text \<open>
  Claim C9. Where the serializer reads back the list it wrote, saving a store and
  loading from its path gives the same task list, and constructing a store from that
  path gives an equal store: every field of every task, in the same order.
\<close>

theorem save_then_load:
  assumes "load pk (dump pk (tasks self)) = Inr (tasks self)"
  shows "load_tasks pk (file_path self) (save_tasks pk self files) = Inr (tasks self) \<and>
         Tasks_init pk (file_path self) (save_tasks pk self files) = Inr self"
  using assms by (simp add: Tasks_init_def load_tasks_def save_tasks_def)

theorem save_then_load_witness:
  "load demo_pickler (dump demo_pickler (tasks demo_store)) = Inr (tasks demo_store) \<and>
   Tasks_init demo_pickler (file_path demo_store) (save_tasks demo_pickler demo_store no_files)
     = Inr demo_store"
proof -
  have h: "load demo_pickler (dump demo_pickler (tasks demo_store)) = Inr (tasks demo_store)"
    by (simp add: demo_pickler_def)
  from save_then_load [OF h, of no_files] h show ?thesis by simp
qed

end
